theory Spec2Isabelle
  imports Main "HOL-Library.Word"
begin

section \<open>Failure modes\<close>

text \<open>
  The ways in which an operation can fail to return normally.  \<open>OutOfRange\<close> is the
  \<^verbatim>\<open>std::out_of_range\<close> exception thrown by \<^verbatim>\<open>At\<close>.  \<open>AssertionFailed\<close> is a failed
  \<^verbatim>\<open>assert\<close> (the model follows a build in which assertions are active).
  \<open>BufferOverrun\<close> is an access to a slot that the current buffer does not have:
  undefined behaviour in C++, an explicit error value here, so that no theorem can
  silently rely on an unspecified \<open>xs ! i\<close>.  \<open>UseAfterFree\<close> is a read through a
  reference into a buffer that has been released in the meantime, undefined behaviour
  as well.  \<open>DanglingObject\<close> is a reference to an object that is not in the object
  store (only used by the assignment operator).
\<close>

datatype error = OutOfRange | AssertionFailed | BufferOverrun | UseAfterFree | DanglingObject

text \<open>\<^verbatim>\<open>size_t\<close> is taken as a 64-bit unsigned integer; \<open>+\<close>, \<open>-\<close> and \<open>*\<close> wrap.\<close>

type_synonym size_t = "64 word"

section \<open>The raw buffer (\<^verbatim>\<open>ArrayPtr\<close>)\<close>

text \<open>
  Modelled from the spec: the header \<^verbatim>\<open>array_ptr.h\<close> with the class \<^verbatim>\<open>ArrayPtr\<close> is not
  part of the sources.  The specification describes it as a collaborator that provides
  ``allocate(n) \<open>\<rightarrow>\<close> owned buffer of n default-constructed elements'', swap, indexed
  element access and the raw pointer.  A buffer is the list of its slots, its length
  is the number of slots that were allocated, and a fresh buffer holds the default
  value \<open>dflt\<close> (the value of \<^verbatim>\<open>Type{}\<close>) in every slot.
\<close>

type_synonym 'a ArrayPtr = "'a list"

definition ArrayPtr_new :: "'a \<Rightarrow> nat \<Rightarrow> 'a ArrayPtr" where
  "ArrayPtr_new dflt n = replicate n dflt"

text \<open>
  Modelled from the spec: \<^verbatim>\<open>ArrayPtr::operator[]\<close>, the indexed element access.  It
  yields a reference, which is modelled as the offset of the slot in the buffer;
  naming a slot the buffer does not have is a \<open>BufferOverrun\<close>.
\<close>

definition ArrayPtr_ref :: "'a ArrayPtr \<Rightarrow> nat \<Rightarrow> error + nat" where
  "ArrayPtr_ref p i = (if i < length p then Inr i else Inl BufferOverrun)"

section \<open>The standard algorithms used by the header\<close>

text \<open>
  Pointers into a buffer are offsets from \<^verbatim>\<open>Get()\<close>.  Each algorithm is the loop of
  its reference implementation; every read and write is checked against the length
  of the buffer it touches.
\<close>

text \<open>\<^verbatim>\<open>std::fill(first, last, value)\<close>: \<^verbatim>\<open>for (; first != last; ++first) *first = value;\<close>\<close>

function std_fill :: "'a ArrayPtr \<Rightarrow> nat \<Rightarrow> nat \<Rightarrow> 'a \<Rightarrow> error + 'a ArrayPtr" where
  "std_fill buf first lastp val =
     (if first = lastp then Inr buf
      else if first < length buf then std_fill (buf[first := val]) (Suc first) lastp val
      else Inl BufferOverrun)"
  by pat_completeness auto
termination
  by (relation "measure (\<lambda>(buf, first, lastp, val). length buf - first)") auto

text \<open>
  \<^verbatim>\<open>std::copy(first, last, d_first)\<close> from the buffer \<open>src\<close> into a different buffer
  \<open>dst\<close>: \<^verbatim>\<open>for (; first != last; ++first, ++d_first) *d_first = *first;\<close>
\<close>

function std_copy :: "'a ArrayPtr \<Rightarrow> nat \<Rightarrow> nat \<Rightarrow> 'a ArrayPtr \<Rightarrow> nat \<Rightarrow> error + 'a ArrayPtr" where
  "std_copy src first lastp dst d_first =
     (if first = lastp then Inr dst
      else if first < length src \<and> d_first < length dst
        then std_copy src (Suc first) lastp (dst[d_first := src ! first]) (Suc d_first)
      else Inl BufferOverrun)"
  by pat_completeness auto
termination
  by (relation "measure (\<lambda>(src, first, lastp, dst, d_first). length src - first)") auto

text \<open>
  \<^verbatim>\<open>std::move(first, last, d_first)\<close> is the same loop with a move assignment.  The
  header only moves out of a buffer that it releases right afterwards, so the state
  of the moved-from slots is never observed and the move is modelled as a copy.
\<close>

definition std_move :: "'a ArrayPtr \<Rightarrow> nat \<Rightarrow> nat \<Rightarrow> 'a ArrayPtr \<Rightarrow> nat \<Rightarrow> error + 'a ArrayPtr" where
  "std_move src first lastp dst d_first = std_copy src first lastp dst d_first"

text \<open>
  \<^verbatim>\<open>std::copy_backward(first, last, d_last)\<close> inside one buffer:
  \<^verbatim>\<open>while (first != last) *(--d_last) = *(--last);\<close>
\<close>

function std_copy_backward :: "'a ArrayPtr \<Rightarrow> nat \<Rightarrow> nat \<Rightarrow> nat \<Rightarrow> error + 'a ArrayPtr" where
  "std_copy_backward buf first lastp d_last =
     (if first = lastp then Inr buf
      else if 0 < lastp \<and> 0 < d_last \<and> lastp - 1 < length buf \<and> d_last - 1 < length buf
        then std_copy_backward (buf[d_last - 1 := buf ! (lastp - 1)]) first (lastp - 1) (d_last - 1)
      else Inl BufferOverrun)"
  by pat_completeness auto
termination
  by (relation "measure (\<lambda>(buf, first, lastp, d_last). lastp)") auto

text \<open>
  \<^verbatim>\<open>std::equal(first1, last1, first2)\<close>, the three-iterator overload:
  \<^verbatim>\<open>for (; first1 != last1; ++first1, ++first2) if (!(*first1 == *first2)) return false;\<close>
  \<^verbatim>\<open>return true;\<close>
\<close>

function std_equal :: "'a ArrayPtr \<Rightarrow> nat \<Rightarrow> nat \<Rightarrow> 'a ArrayPtr \<Rightarrow> nat \<Rightarrow> error + bool" where
  "std_equal b1 first1 last1 b2 first2 =
     (if first1 = last1 then Inr True
      else if first1 < length b1 \<and> first2 < length b2
        then (if b1 ! first1 = b2 ! first2
              then std_equal b1 (Suc first1) last1 b2 (Suc first2)
              else Inr False)
      else Inl BufferOverrun)"
  by pat_completeness auto
termination
  by (relation "measure (\<lambda>(b1, first1, last1, b2, first2). length b1 - first1)") auto

section \<open>The container\<close>

text \<open>
  The three private members of \<^verbatim>\<open>SimpleVector\<close>: \<^verbatim>\<open>items_\<close>, \<^verbatim>\<open>size_\<close> and
  \<^verbatim>\<open>capacity_\<close> (an identifier may not end in an underscore here, hence the prefix).
\<close>

record 'a SimpleVector =
  m_items :: "'a ArrayPtr"
  m_size :: size_t
  m_capacity :: size_t

text \<open>An \<^verbatim>\<open>Iterator\<close> is a \<^verbatim>\<open>Type*\<close>: the offset of a slot from \<^verbatim>\<open>items_.Get()\<close>.\<close>

type_synonym Iterator = nat

text \<open>\<^verbatim>\<open>SimpleVector() noexcept = default\<close>: an empty \<^verbatim>\<open>ArrayPtr\<close> and both counters 0.\<close>

definition SimpleVector_default :: "'a SimpleVector" where
  "SimpleVector_default = \<lparr>m_items = [], m_size = 0, m_capacity = 0\<rparr>"

definition GetSize :: "'a SimpleVector \<Rightarrow> size_t" where
  "GetSize v = m_size v"

definition GetCapacity :: "'a SimpleVector \<Rightarrow> size_t" where
  "GetCapacity v = m_capacity v"

definition IsEmpty :: "'a SimpleVector \<Rightarrow> bool" where
  "IsEmpty v = (m_size v = 0)"

definition begin_it :: "'a SimpleVector \<Rightarrow> Iterator" where
  "begin_it v = 0"

definition end_it :: "'a SimpleVector \<Rightarrow> Iterator" where
  "end_it v = 0 + unat (m_size v)"

text \<open>\<^verbatim>\<open>SimpleVector(size_t size, const Type& value)\<close>\<close>

definition SimpleVector_fill :: "'a \<Rightarrow> size_t \<Rightarrow> 'a \<Rightarrow> error + 'a SimpleVector" where
  "SimpleVector_fill dflt sz val =
     (case std_fill (ArrayPtr_new dflt (unat sz)) 0 (0 + unat sz) val of
        Inl e \<Rightarrow> Inl e
      | Inr buf \<Rightarrow> Inr \<lparr>m_items = buf, m_size = sz, m_capacity = sz\<rparr>)"

text \<open>\<^verbatim>\<open>explicit SimpleVector(size_t size)\<close> delegates with \<^verbatim>\<open>Type{}\<close>.\<close>

definition SimpleVector_sized :: "'a \<Rightarrow> size_t \<Rightarrow> error + 'a SimpleVector" where
  "SimpleVector_sized dflt sz = SimpleVector_fill dflt sz dflt"

text \<open>\<^verbatim>\<open>SimpleVector(std::initializer_list<Type> init)\<close>; the list is its own buffer.\<close>

definition SimpleVector_init :: "'a \<Rightarrow> 'a list \<Rightarrow> error + 'a SimpleVector" where
  "SimpleVector_init dflt init =
     (case std_copy init 0 (length init) (ArrayPtr_new dflt (length init)) 0 of
        Inl e \<Rightarrow> Inl e
      | Inr buf \<Rightarrow> Inr \<lparr>m_items = buf, m_size = of_nat (length init),
                        m_capacity = of_nat (length init)\<rparr>)"

text \<open>
  \<^verbatim>\<open>SimpleVector(const SimpleVector& other)\<close>: the buffer is allocated with
  \<^verbatim>\<open>other.GetSize()\<close> slots, the capacity counter is set to \<^verbatim>\<open>other.GetCapacity()\<close>.
\<close>

definition SimpleVector_copy :: "'a \<Rightarrow> 'a SimpleVector \<Rightarrow> error + 'a SimpleVector" where
  "SimpleVector_copy dflt other =
     (case std_copy (m_items other) (begin_it other) (end_it other)
             (ArrayPtr_new dflt (unat (GetSize other))) 0 of
        Inl e \<Rightarrow> Inl e
      | Inr buf \<Rightarrow> Inr \<lparr>m_items = buf, m_size = GetSize other,
                        m_capacity = GetCapacity other\<rparr>)"

text \<open>
  \<^verbatim>\<open>void swap(SimpleVector& other) noexcept\<close>: both objects change, so both are
  returned, \<^verbatim>\<open>*this\<close> first.
\<close>

definition swap :: "'a SimpleVector \<Rightarrow> 'a SimpleVector \<Rightarrow> 'a SimpleVector \<times> 'a SimpleVector" where
  "swap this other =
     (this\<lparr>m_capacity := m_capacity other, m_size := m_size other, m_items := m_items other\<rparr>,
      other\<lparr>m_capacity := m_capacity this, m_size := m_size this, m_items := m_items this\<rparr>)"

text \<open>
  \<^verbatim>\<open>SimpleVector(SimpleVector&& other)\<close>: \<^verbatim>\<open>items_(other.GetSize())\<close>, the counters
  take their default member initialisers 0, then \<^verbatim>\<open>swap(other)\<close>.  The result is the
  new object and the moved-from \<^verbatim>\<open>other\<close>.
\<close>

definition SimpleVector_move :: "'a \<Rightarrow> 'a SimpleVector \<Rightarrow> 'a SimpleVector \<times> 'a SimpleVector" where
  "SimpleVector_move dflt other =
     swap \<lparr>m_items = ArrayPtr_new dflt (unat (GetSize other)), m_size = 0, m_capacity = 0\<rparr> other"

text \<open>
  \<^verbatim>\<open>Type& operator[](size_t index) noexcept\<close>: the assertion, then \<^verbatim>\<open>items_[index]\<close>.
  A non-const member function returns its result together with the object; the
  const overload has the same body.
\<close>

definition operator_index :: "'a SimpleVector \<Rightarrow> size_t \<Rightarrow> error + (nat \<times> 'a SimpleVector)" where
  "operator_index v index =
     (if \<not> index < m_size v then Inl AssertionFailed
      else case ArrayPtr_ref (m_items v) (unat index) of
             Inl e \<Rightarrow> Inl e
           | Inr r \<Rightarrow> Inr (r, v))"

text \<open>\<^verbatim>\<open>Type& At(size_t index)\<close>: throws when \<^verbatim>\<open>index >= size_\<close>, else \<^verbatim>\<open>items_[index]\<close>.\<close>

definition At :: "'a SimpleVector \<Rightarrow> size_t \<Rightarrow> error + (nat \<times> 'a SimpleVector)" where
  "At v index =
     (if index \<ge> m_size v then Inl OutOfRange
      else case ArrayPtr_ref (m_items v) (unat index) of
             Inl e \<Rightarrow> Inl e
           | Inr r \<Rightarrow> Inr (r, v))"

definition Clear :: "'a SimpleVector \<Rightarrow> 'a SimpleVector" where
  "Clear v = v\<lparr>m_size := 0\<rparr>"

text \<open>
  The private \<^verbatim>\<open>Fill(first, last)\<close>:
  \<^verbatim>\<open>for (auto it = first; it != last; ++it) *it = std::move(Type());\<close>
  It works on raw pointers, so the buffer they point into is an argument.
\<close>

function Fill :: "'a \<Rightarrow> 'a ArrayPtr \<Rightarrow> Iterator \<Rightarrow> Iterator \<Rightarrow> error + 'a ArrayPtr" where
  "Fill dflt buf first lastp =
     (if first = lastp then Inr buf
      else if first < length buf then Fill dflt (buf[first := dflt]) (Suc first) lastp
      else Inl BufferOverrun)"
  by pat_completeness auto
termination
  by (relation "measure (\<lambda>(dflt, buf, first, lastp). length buf - first)") auto

text \<open>
  \<^verbatim>\<open>void Resize(size_t new_size)\<close>.  In the first branch \<^verbatim>\<open>new_items\<close> is swapped into
  \<^verbatim>\<open>items_\<close> and the old buffer is released at the end of the block.  In the second
  branch the source fills from \<^verbatim>\<open>end()\<close> to \<^verbatim>\<open>end() + new_size\<close>.  When no branch
  applies (\<^verbatim>\<open>new_size == size_\<close>) nothing happens.
\<close>

definition Resize :: "'a \<Rightarrow> 'a SimpleVector \<Rightarrow> size_t \<Rightarrow> error + 'a SimpleVector" where
  "Resize dflt v new_size =
     (if new_size > m_capacity v then
        (let new_capacity = max new_size (m_capacity v * 2);
             new_items = ArrayPtr_new dflt (unat new_capacity)
         in case Fill dflt new_items 0 (0 + unat new_capacity) of
              Inl e \<Rightarrow> Inl e
            | Inr filled \<Rightarrow>
                (case std_move (m_items v) (begin_it v) (end_it v) filled 0 of
                   Inl e \<Rightarrow> Inl e
                 | Inr moved \<Rightarrow>
                     Inr (v\<lparr>m_items := moved, m_size := new_size, m_capacity := new_capacity\<rparr>)))
      else if new_size \<le> m_capacity v \<and> new_size > m_size v then
        (case Fill dflt (m_items v) (end_it v) (end_it v + unat new_size) of
           Inl e \<Rightarrow> Inl e
         | Inr filled \<Rightarrow> Inr (v\<lparr>m_items := filled, m_size := new_size\<rparr>))
      else if new_size \<le> m_capacity v \<and> new_size < m_size v then
        Inr (v\<lparr>m_size := new_size\<rparr>)
      else Inr v)"

text \<open>
  \<^verbatim>\<open>void PushBack(const Type& item)\<close> receives a reference, and the source reads it
  after \<^verbatim>\<open>Resize\<close> has run.  The referenced object is either outside the buffer of the
  container (then only its value matters) or an element of the container itself, named
  by its slot at the time of the call, as in \<^verbatim>\<open>v.PushBack(v[0])\<close>.
\<close>

datatype 'a const_ref = Outside 'a | Element nat

text \<open>
  Reading the argument: a reference to a slot of a buffer that has been released
  since the call reads freed storage.
\<close>

definition read_item :: "'a ArrayPtr \<Rightarrow> bool \<Rightarrow> 'a const_ref \<Rightarrow> error + 'a" where
  "read_item buf released item =
     (case item of
        Outside x \<Rightarrow> Inr x
      | Element i \<Rightarrow>
          if released then Inl UseAfterFree
          else if i < length buf then Inr (buf ! i)
          else Inl BufferOverrun)"

text \<open>
  In the full branch \<^verbatim>\<open>items_[size_ - 1] = item\<close> comes after \<^verbatim>\<open>Resize(new_size)\<close>, which
  has swapped in a new buffer and released the old one exactly when it took its first
  branch (\<^verbatim>\<open>new_size > capacity_\<close>, with the capacity from before the call).  The rvalue
  overload has the same shape.
\<close>

definition PushBack :: "'a \<Rightarrow> 'a SimpleVector \<Rightarrow> 'a const_ref \<Rightarrow> error + 'a SimpleVector" where
  "PushBack dflt v item =
     (if m_size v = m_capacity v then
        (let new_size = m_size v + 1
         in case Resize dflt v new_size of
              Inl e \<Rightarrow> Inl e
            | Inr v1 \<Rightarrow>
                (case ArrayPtr_ref (m_items v1) (unat (m_size v1 - 1)) of
                   Inl e \<Rightarrow> Inl e
                 | Inr r \<Rightarrow>
                     (case read_item (m_items v1) (new_size > m_capacity v) item of
                        Inl e \<Rightarrow> Inl e
                      | Inr x \<Rightarrow> Inr (v1\<lparr>m_items := (m_items v1)[r := x]\<rparr>))))
      else
        (case ArrayPtr_ref (m_items v) (unat (m_size v)) of
           Inl e \<Rightarrow> Inl e
         | Inr r \<Rightarrow>
             (case read_item (m_items v) False item of
                Inl e \<Rightarrow> Inl e
              | Inr x \<Rightarrow> Inr (v\<lparr>m_items := (m_items v)[r := x], m_size := m_size v + 1\<rparr>))))"

text \<open>
  \<^verbatim>\<open>Iterator Insert(ConstIterator pos, const Type& value)\<close>.  In the full branch
  \<^verbatim>\<open>Resize\<close> has already set \<^verbatim>\<open>size_\<close> to the new size when \<^verbatim>\<open>copy_backward\<close> reads it.
  An offset cannot be negative, so \<^verbatim>\<open>pos >= begin()\<close> can only hold.  The value
  inserted is an object outside the buffer of the container.
\<close>

definition Insert :: "'a \<Rightarrow> 'a SimpleVector \<Rightarrow> Iterator \<Rightarrow> 'a \<Rightarrow> error + (Iterator \<times> 'a SimpleVector)" where
  "Insert dflt v pos val =
     (if \<not> (pos \<le> end_it v \<and> pos \<ge> begin_it v) then Inl AssertionFailed
      else
        (let index = pos - 0 in
         if m_size v = m_capacity v then
           (let new_size = m_size v + 1
            in case Resize dflt v new_size of
                 Inl e \<Rightarrow> Inl e
               | Inr v1 \<Rightarrow>
                   (case std_copy_backward (m_items v1) (0 + index) (0 + unat (m_size v1))
                           (0 + unat (m_size v1) + 1) of
                      Inl e \<Rightarrow> Inl e
                    | Inr shifted \<Rightarrow>
                        (case ArrayPtr_ref shifted index of
                           Inl e \<Rightarrow> Inl e
                         | Inr r \<Rightarrow> Inr (r, v1\<lparr>m_items := shifted[r := val]\<rparr>))))
         else
           (case std_copy_backward (m_items v) (0 + index) (0 + unat (m_size v))
                   (0 + unat (m_size v) + 1) of
              Inl e \<Rightarrow> Inl e
            | Inr shifted \<Rightarrow>
                (case ArrayPtr_ref shifted index of
                   Inl e \<Rightarrow> Inl e
                 | Inr r \<Rightarrow> Inr (r, v\<lparr>m_items := shifted[r := val], m_size := m_size v + 1\<rparr>)))))"

text \<open>\<^verbatim>\<open>void PopBack() noexcept\<close>\<close>

definition PopBack :: "'a SimpleVector \<Rightarrow> error + 'a SimpleVector" where
  "PopBack v = (if \<not> \<not> IsEmpty v then Inl AssertionFailed else Inr (v\<lparr>m_size := m_size v - 1\<rparr>))"

text \<open>
  \<^verbatim>\<open>Iterator Erase(ConstIterator pos)\<close>: a buffer of \<^verbatim>\<open>size_\<close> slots (the size before
  the decrement), the two moves around \<^verbatim>\<open>index\<close>, the swap, \<^verbatim>\<open>--size_\<close>, and
  \<^verbatim>\<open>&items_[index]\<close> in the new buffer.  \<^verbatim>\<open>capacity_\<close> is not assigned.
\<close>

definition Erase :: "'a \<Rightarrow> 'a SimpleVector \<Rightarrow> Iterator \<Rightarrow> error + (Iterator \<times> 'a SimpleVector)" where
  "Erase dflt v pos =
     (if \<not> (pos < end_it v \<and> pos \<ge> begin_it v) then Inl AssertionFailed
      else
        (let index = pos - 0;
             new_items = ArrayPtr_new dflt (unat (m_size v))
         in case std_move (m_items v) 0 (0 + index) new_items 0 of
              Inl e \<Rightarrow> Inl e
            | Inr head \<Rightarrow>
                (case std_move (m_items v) (0 + index + 1) (0 + unat (m_size v)) head (0 + index) of
                   Inl e \<Rightarrow> Inl e
                 | Inr both \<Rightarrow>
                     (case ArrayPtr_ref both index of
                        Inl e \<Rightarrow> Inl e
                      | Inr r \<Rightarrow> Inr (r, v\<lparr>m_items := both, m_size := m_size v - 1\<rparr>)))))"

text \<open>\<^verbatim>\<open>void Reserve(size_t new_capacity)\<close>\<close>

definition Reserve :: "'a \<Rightarrow> 'a SimpleVector \<Rightarrow> size_t \<Rightarrow> error + 'a SimpleVector" where
  "Reserve dflt v new_capacity =
     (if new_capacity > m_capacity v then
        (case std_copy (m_items v) 0 (0 + unat (m_size v))
                (ArrayPtr_new dflt (unat new_capacity)) 0 of
           Inl e \<Rightarrow> Inl e
         | Inr buf \<Rightarrow> Inr (v\<lparr>m_items := buf, m_capacity := new_capacity\<rparr>))
      else Inr v)"

text \<open>
  \<^verbatim>\<open>explicit SimpleVector(ReserveProxyObj reserve_items)\<close>: the members take their
  defaults and the body calls \<^verbatim>\<open>Reserve\<close> with the capacity that the proxy object
  carries (the free function \<^verbatim>\<open>Reserve\<close> only wraps the number).
\<close>

definition SimpleVector_reserved :: "'a \<Rightarrow> size_t \<Rightarrow> error + 'a SimpleVector" where
  "SimpleVector_reserved dflt capacity_to_reserve =
     Reserve dflt SimpleVector_default capacity_to_reserve"

text \<open>
  \<^verbatim>\<open>SimpleVector& operator=(const SimpleVector& rhs)\<close> compares the addresses of the
  two \<^verbatim>\<open>items_\<close> members, so the objects live in a store and are named by address.
  \<^verbatim>\<open>items_\<close> sits at the same place in every object: the two member addresses are equal
  exactly when the two object addresses are.  The temporary \<^verbatim>\<open>items_copy\<close> is destroyed
  at the end of the block.  The result is the address of \<^verbatim>\<open>*this\<close> and the new store.
\<close>

type_synonym addr = nat

definition operator_assign ::
  "'a \<Rightarrow> (addr \<rightharpoonup> 'a SimpleVector) \<Rightarrow> addr \<Rightarrow> addr \<Rightarrow> error + (addr \<times> (addr \<rightharpoonup> 'a SimpleVector))" where
  "operator_assign dflt store this rhs =
     (case store this of
        None \<Rightarrow> Inl DanglingObject
      | Some this_obj \<Rightarrow>
          (case store rhs of
             None \<Rightarrow> Inl DanglingObject
           | Some rhs_obj \<Rightarrow>
               if this \<noteq> rhs then
                 (case SimpleVector_copy dflt rhs_obj of
                    Inl e \<Rightarrow> Inl e
                  | Inr items_copy \<Rightarrow> Inr (this, store(this \<mapsto> fst (swap this_obj items_copy))))
               else Inr (this, store)))"

text \<open>\<^verbatim>\<open>operator==\<close>: \<^verbatim>\<open>std::equal(lhs.begin(), lhs.end(), rhs.begin())\<close>\<close>

definition operator_eq :: "'a SimpleVector \<Rightarrow> 'a SimpleVector \<Rightarrow> error + bool" where
  "operator_eq lhs rhs =
     std_equal (m_items lhs) (begin_it lhs) (end_it lhs) (m_items rhs) (begin_it rhs)"

section \<open>The notions of the specification\<close>

text \<open>The live range: the slots \<open>[0, size)\<close>, the logical content of the container.\<close>

definition live :: "'a SimpleVector \<Rightarrow> 'a list" where
  "live v = take (unat (m_size v)) (m_items v)"

text \<open>
  The state invariant: \<open>size \<le> capacity\<close>, and every index below \<open>capacity\<close> is a slot
  of the buffer.  (A buffer with more slots than \<open>capacity\<close> is accepted: the move
  constructor leaves such a buffer behind.)
\<close>

definition invar :: "'a SimpleVector \<Rightarrow> bool" where
  "invar v \<longleftrightarrow> m_size v \<le> m_capacity v \<and> unat (m_capacity v) \<le> length (m_items v)"

section \<open>The loops inside their buffers\<close>

text \<open>
  The recursive equations of the loops are taken out of the simplifier; each proof
  unfolds one iteration where it needs it.
\<close>

declare Fill.simps [simp del] std_fill.simps [simp del] std_copy.simps [simp del]
  std_copy_backward.simps [simp del] std_equal.simps [simp del]

lemma Fill_in_bounds:
  "first \<le> lastp \<Longrightarrow> lastp \<le> length buf \<Longrightarrow>
   Fill dflt buf first lastp = Inr (take first buf @ replicate (lastp - first) dflt @ drop lastp buf)"
proof (induction dflt buf first lastp rule: Fill.induct)
  case (1 dflt buf first lastp)
  show ?case
  proof (cases "first = lastp")
    case True
    then show ?thesis by (subst Fill.simps) simp
  next
    case False
    with "1.prems" have lt: "first < lastp" "first < length buf" by auto
    then have cnt: "lastp - first = Suc (lastp - Suc first)" by arith
    have step: "Fill dflt buf first lastp = Fill dflt (buf[first := dflt]) (Suc first) lastp"
      using False lt by (subst Fill.simps) simp
    have "Fill dflt (buf[first := dflt]) (Suc first) lastp =
            Inr (take (Suc first) (buf[first := dflt]) @ replicate (lastp - Suc first) dflt
                 @ drop lastp (buf[first := dflt]))"
      using "1.IH" [OF False lt(2)] lt "1.prems" by simp
    also have "take (Suc first) (buf[first := dflt]) = take first buf @ [dflt]"
      using lt by (simp add: take_Suc_conv_app_nth)
    also have "drop lastp (buf[first := dflt]) = drop lastp buf"
      using lt by simp
    finally show ?thesis
      using step by (simp add: cnt)
  qed
qed

lemma std_copy_in_bounds:
  "first \<le> lastp \<Longrightarrow> lastp \<le> length src \<Longrightarrow> d_first + (lastp - first) \<le> length dst \<Longrightarrow>
   std_copy src first lastp dst d_first =
     Inr (take d_first dst @ take (lastp - first) (drop first src)
          @ drop (d_first + (lastp - first)) dst)"
proof (induction src first lastp dst d_first rule: std_copy.induct)
  case (1 src first lastp dst d_first)
  show ?case
  proof (cases "first = lastp")
    case True
    then show ?thesis by (subst std_copy.simps) simp
  next
    case False
    with "1.prems" have lt: "first < lastp" "first < length src" "d_first < length dst" by auto
    then have cnt: "lastp - first = Suc (lastp - Suc first)" by arith
    have step: "std_copy src first lastp dst d_first =
                std_copy src (Suc first) lastp (dst[d_first := src ! first]) (Suc d_first)"
      using False lt by (subst std_copy.simps) simp
    have ih: "std_copy src (Suc first) lastp (dst[d_first := src ! first]) (Suc d_first) =
            Inr (take (Suc d_first) (dst[d_first := src ! first])
                 @ take (lastp - Suc first) (drop (Suc first) src)
                 @ drop (Suc d_first + (lastp - Suc first)) (dst[d_first := src ! first]))"
      using "1.IH" [OF False] lt "1.prems" by simp
    have t: "take (Suc d_first) (dst[d_first := src ! first]) = take d_first dst @ [src ! first]"
      using lt by (simp add: take_Suc_conv_app_nth)
    have d: "drop (Suc d_first + (lastp - Suc first)) (dst[d_first := src ! first])
               = drop (d_first + (lastp - first)) dst"
      using lt by (simp add: cnt)
    have m: "take (lastp - first) (drop first src)
               = src ! first # take (lastp - Suc first) (drop (Suc first) src)"
      using lt by (simp add: cnt Cons_nth_drop_Suc [symmetric])
    show ?thesis
      unfolding step ih t d m by simp
  qed
qed

section \<open>Checked access\<close>

text \<open>
  C7.  For every container and every index, \<open>At\<close> throws the out-of-range error if
  and only if the index is not below the size.  For an index below the size (the
  live range being made of slots of the buffer, as it is in every container) it
  throws nothing and fails in no other way, the reference it returns names the slot
  with that index, which holds the element of the live range at this index, and the
  container that comes back is the one that went in: size, capacity and elements are
  unchanged.  The capacity plays no part.
\<close>

theorem At_fails_iff_index_not_below_size:
  "(At v index = Inl OutOfRange \<longleftrightarrow> index \<ge> m_size v)
   \<and> (unat (m_size v) \<le> length (m_items v) \<longrightarrow> index < m_size v \<longrightarrow>
         At v index = Inr (unat index, v) \<and> unat index < length (m_items v)
         \<and> m_items v ! unat index = live v ! unat index)"
  by (auto simp: At_def ArrayPtr_ref_def live_def word_less_nat_alt word_le_nat_alt)

theorem At_fails_iff_index_not_below_size_witness:
  "unat (m_size \<lparr>m_items = [10, 20 :: int], m_size = 2, m_capacity = 4\<rparr>)
     \<le> length (m_items \<lparr>m_items = [10, 20 :: int], m_size = 2, m_capacity = 4\<rparr>)
   \<and> (1 :: size_t) < m_size \<lparr>m_items = [10, 20 :: int], m_size = 2, m_capacity = 4\<rparr>
   \<and> At \<lparr>m_items = [10, 20 :: int], m_size = 2, m_capacity = 4\<rparr> 1
       = Inr (1, \<lparr>m_items = [10, 20], m_size = 2, m_capacity = 4\<rparr>)
   \<and> At \<lparr>m_items = [10, 20 :: int], m_size = 2, m_capacity = 4\<rparr> 2 = Inl OutOfRange"
proof -
  let ?v = "\<lparr>m_items = [10, 20 :: int], m_size = 2, m_capacity = 4\<rparr>"
  have slots: "unat (m_size ?v) \<le> length (m_items ?v)" and below: "(1 :: size_t) < m_size ?v"
    by simp_all
  from At_fails_iff_index_not_below_size [of ?v 1] At_fails_iff_index_not_below_size [of ?v 2]
       slots below
  show ?thesis by simp
qed

section \<open>Self-assignment\<close>

text \<open>
  C10.  Assigning a container to itself, that is, with \<open>rhs\<close> naming the object at
  the address of \<open>*this\<close>, returns the address of \<open>*this\<close> and leaves the whole object
  store as it was: no copy is made, and size, capacity and elements stay the same.
\<close>

theorem self_assignment_is_identity:
  assumes "store a = Some v"
  shows "operator_assign dflt store a a = Inr (a, store)"
  using assms by (simp add: operator_assign_def)

theorem self_assignment_is_identity_witness:
  "[0 \<mapsto> \<lparr>m_items = [1, 2, 0 :: int], m_size = 2, m_capacity = 3\<rparr>] 0
     = Some \<lparr>m_items = [1, 2, 0], m_size = 2, m_capacity = 3\<rparr>
   \<and> operator_assign 0 [0 \<mapsto> \<lparr>m_items = [1, 2, 0 :: int], m_size = 2, m_capacity = 3\<rparr>] 0 0
     = Inr (0, [0 \<mapsto> \<lparr>m_items = [1, 2, 0], m_size = 2, m_capacity = 3\<rparr>])"
proof -
  have h: "[(0::nat) \<mapsto> \<lparr>m_items = [1, 2, 0 :: int], m_size = 2, m_capacity = 3\<rparr>] 0
             = Some \<lparr>m_items = [1, 2, 0], m_size = 2, m_capacity = 3\<rparr>"
    by simp
  from self_assignment_is_identity
         [of "[0 \<mapsto> \<lparr>m_items = [1, 2, 0 :: int], m_size = 2, m_capacity = 3\<rparr>]" 0
             "\<lparr>m_items = [1, 2, 0], m_size = 2, m_capacity = 3\<rparr>" 0, OF h] h
  show ?thesis by simp
qed

section \<open>Growing and appending\<close>

text \<open>
  The counters are 64-bit words.  A buffer of \<open>2\<^sup>6\<^sup>3\<close> or more slots cannot be
  allocated, so the lemmas on \<^verbatim>\<open>size_ + 1\<close> and \<^verbatim>\<open>capacity_ * 2\<close> ask for a capacity
  below \<open>2\<^sup>6\<^sup>3\<close>; under this bound the two operations do not wrap.
\<close>

lemma Fill_fresh: "Fill dflt (ArrayPtr_new dflt n) 0 n = Inr (replicate n dflt)"
  using Fill_in_bounds [of 0 n "replicate n dflt" dflt] by (simp add: ArrayPtr_new_def)

lemma invar_size_le_slots: "invar v \<Longrightarrow> unat (m_size v) \<le> length (m_items v)"
  by (simp add: invar_def word_le_nat_alt)

lemma Resize_grow:
  assumes "invar v" and "m_capacity v < new_size"
  shows "Resize dflt v new_size =
           Inr (v\<lparr>m_items := live v @ replicate (unat (max new_size (m_capacity v * 2))
                                        - unat (m_size v)) dflt,
                  m_size := new_size,
                  m_capacity := max new_size (m_capacity v * 2)\<rparr>)"
proof -
  let ?n = "unat (max new_size (m_capacity v * 2))"
  have "m_size v \<le> m_capacity v" using assms(1) by (simp add: invar_def)
  also note assms(2)
  also have "new_size \<le> max new_size (m_capacity v * 2)" by simp
  finally have "unat (m_size v) \<le> ?n" by (simp add: word_le_nat_alt word_less_nat_alt)
  then have "std_move (m_items v) (begin_it v) (end_it v) (replicate ?n dflt) 0 =
          Inr (live v @ replicate (?n - unat (m_size v)) dflt)"
    using std_copy_in_bounds [of 0 "unat (m_size v)" "m_items v" 0 "replicate ?n dflt"]
      invar_size_le_slots [OF assms(1)]
    by (simp add: std_move_def begin_it_def end_it_def live_def)
  then show ?thesis
    using assms(2) by (simp add: Resize_def Let_def Fill_fresh)
qed

lemma unat_succ_size_t:
  fixes n :: size_t
  assumes "unat n < 2 ^ 63"
  shows "unat (n + 1) = unat n + 1"
proof -
  have "unat n + unat (1 :: size_t) < 2 ^ LENGTH(64)" using assms by simp
  then have "unat (n + 1) = unat n + unat (1 :: size_t)" by (simp only: unat_add_lem)
  then show ?thesis by simp
qed

lemma unat_double_size_t:
  fixes n :: size_t
  assumes "unat n < 2 ^ 63"
  shows "unat (n * 2) = 2 * unat n"
proof -
  have "unat n * unat (2 :: size_t) < 2 ^ LENGTH(64)" using assms by simp
  then have "unat (n * 2) = unat n * unat (2 :: size_t)" by (simp only: unat_mult_lem)
  then show ?thesis by simp
qed

lemma unat_max_size_t: "unat (max a b) = max (unat a) (unat (b :: size_t))"
  by (simp add: max_def word_le_nat_alt)

lemma PushBack_full_body:
  assumes inv: "invar v" and small: "unat (m_capacity v) < 2 ^ 63" and full: "m_size v = m_capacity v"
  shows "PushBack dflt v item =
           (case read_item (live v @ replicate (unat (max (m_size v + 1) (m_capacity v * 2))
                                                - unat (m_size v)) dflt) True item of
              Inl e \<Rightarrow> Inl e
            | Inr x \<Rightarrow>
                Inr (v\<lparr>m_items := live v @ x # replicate (unat (max (m_size v + 1) (m_capacity v * 2))
                                                         - Suc (unat (m_size v))) dflt,
                       m_size := m_size v + 1,
                       m_capacity := max (m_size v + 1) (m_capacity v * 2)\<rparr>))"
proof -
  let ?c = "max (m_size v + 1) (m_capacity v * 2)"
  have sz: "unat (m_size v + 1) = unat (m_size v) + 1"
    using small full by (simp add: unat_succ_size_t)
  then have gt: "m_capacity v < m_size v + 1"
    using full by (simp add: word_less_nat_alt)
  have len: "length (live v) = unat (m_size v)"
    using invar_size_le_slots [OF inv] by (simp add: live_def)
  have "unat (m_size v + 1) \<le> unat ?c" by (simp add: unat_max_size_t)
  then have room: "unat (m_size v) < unat ?c" using sz by simp
  then have cnt: "unat ?c - unat (m_size v) = Suc (unat ?c - Suc (unat (m_size v)))" by arith
  have "PushBack dflt v item =
          (case Resize dflt v (m_size v + 1) of
             Inl e \<Rightarrow> Inl e
           | Inr v1 \<Rightarrow>
               (case ArrayPtr_ref (m_items v1) (unat (m_size v1 - 1)) of
                  Inl e \<Rightarrow> Inl e
                | Inr r \<Rightarrow>
                    (case read_item (m_items v1) (m_size v + 1 > m_capacity v) item of
                       Inl e \<Rightarrow> Inl e
                     | Inr x \<Rightarrow> Inr (v1\<lparr>m_items := (m_items v1)[r := x]\<rparr>))))"
    by (simp only: PushBack_def Let_def if_P [OF full])
  then show ?thesis
    using room gt
    by (simp add: Resize_grow [OF inv gt] ArrayPtr_ref_def len list_update_append
        split: sum.splits) (simp add: cnt)
qed

lemma PushBack_full:
  assumes inv: "invar v" and small: "unat (m_capacity v) < 2 ^ 63" and full: "m_size v = m_capacity v"
  shows "PushBack dflt v (Outside item) =
           Inr (v\<lparr>m_items := live v @ item # replicate (unat (max (m_size v + 1) (m_capacity v * 2))
                                                     - Suc (unat (m_size v))) dflt,
                  m_size := m_size v + 1,
                  m_capacity := max (m_size v + 1) (m_capacity v * 2)\<rparr>)"
  by (simp add: PushBack_full_body [OF inv small full] read_item_def)

text \<open>
  Pushing an element of a full container onto the container itself reads the
  argument in the buffer that \<open>Resize\<close> has released.
\<close>

lemma PushBack_full_own_element:
  assumes inv: "invar v" and small: "unat (m_capacity v) < 2 ^ 63" and full: "m_size v = m_capacity v"
  shows "PushBack dflt v (Element i) = Inl UseAfterFree"
  by (simp add: PushBack_full_body [OF inv small full] read_item_def)

lemma PushBack_spare:
  assumes inv: "invar v" and spare: "m_size v \<noteq> m_capacity v"
  shows "PushBack dflt v (Outside item) =
           Inr (v\<lparr>m_items := (m_items v)[unat (m_size v) := item], m_size := m_size v + 1\<rparr>)"
    and "unat (m_size v) < length (m_items v)"
    and "unat (m_size v + 1) = unat (m_size v) + 1"
proof -
  from inv spare have "m_size v < m_capacity v" by (simp add: invar_def order_less_le)
  then have lt: "unat (m_size v) < unat (m_capacity v)" by (simp add: word_less_nat_alt)
  with inv show slot: "unat (m_size v) < length (m_items v)" by (simp add: invar_def)
  then show "PushBack dflt v (Outside item) =
           Inr (v\<lparr>m_items := (m_items v)[unat (m_size v) := item], m_size := m_size v + 1\<rparr>)"
    using spare by (simp add: PushBack_def ArrayPtr_ref_def read_item_def)
  have "unat (m_capacity v) < 2 ^ 64" using unsigned_less [of "m_capacity v"] by simp
  with lt have "unat (m_size v) + unat (1 :: size_t) < 2 ^ LENGTH(64)" by simp
  then have "unat (m_size v + 1) = unat (m_size v) + unat (1 :: size_t)" by (simp only: unat_add_lem)
  then show "unat (m_size v + 1) = unat (m_size v) + 1" by simp
qed

text \<open>
  What \<open>PushBack\<close> does on a container that satisfies the state invariant, with a
  capacity below \<open>2\<^sup>6\<^sup>3\<close>, when the argument is an object outside the buffer: it
  returns normally, the live range afterwards is the old live range followed by the
  new value, and the size has grown by one.  When the container was full, the result
  is that of \<open>Resize\<close> to \<open>size + 1\<close> with the value written to the last live slot, and
  the capacity is \<open>max (size + 1) (2 * capacity)\<close>.  When it was not full, the value is
  written to slot \<open>size\<close>, the size is incremented and nothing else changes.  Starting
  from the empty container with capacity 0, pushing 1, 2 and 3 gives capacities 1, 2
  and 4, size 3 and the content \<open>[1, 2, 3]\<close>.
\<close>

lemma PushBack_outside_appends_and_doubles:
  assumes inv: "invar v" and small: "unat (m_capacity v) < 2 ^ 63"
  shows "(\<exists>v'. PushBack dflt v (Outside item) = Inr v'
            \<and> live v' = live v @ [item]
            \<and> unat (GetSize v') = unat (GetSize v) + 1
            \<and> (m_size v = m_capacity v \<longrightarrow>
                  (\<exists>v1. Resize dflt v (m_size v + 1) = Inr v1
                        \<and> v' = v1\<lparr>m_items := (m_items v1)[unat (m_size v1) - 1 := item]\<rparr>)
                  \<and> unat (GetCapacity v')
                      = max (unat (GetSize v) + 1) (2 * unat (GetCapacity v)))
            \<and> (m_size v \<noteq> m_capacity v \<longrightarrow>
                  v' = v\<lparr>m_items := (m_items v)[unat (m_size v) := item],
                          m_size := m_size v + 1\<rparr>))
       \<and> GetCapacity (SimpleVector_default :: int SimpleVector) = 0
       \<and> PushBack 0 SimpleVector_default (Outside (1 :: int))
           = Inr \<lparr>m_items = [1], m_size = 1, m_capacity = 1\<rparr>
       \<and> PushBack 0 \<lparr>m_items = [1], m_size = 1, m_capacity = 1\<rparr> (Outside (2 :: int))
           = Inr \<lparr>m_items = [1, 2], m_size = 2, m_capacity = 2\<rparr>
       \<and> PushBack 0 \<lparr>m_items = [1, 2], m_size = 2, m_capacity = 2\<rparr> (Outside (3 :: int))
           = Inr \<lparr>m_items = [1, 2, 3, 0], m_size = 3, m_capacity = 4\<rparr>
       \<and> live \<lparr>m_items = [1, 2, 3, 0 :: int], m_size = 3, m_capacity = 4\<rparr> = [1, 2, 3]"
proof -
  have len: "length (live v) = unat (m_size v)"
    using invar_size_le_slots [OF inv] by (simp add: live_def)
  have general: "\<exists>v'. PushBack dflt v (Outside item) = Inr v'
            \<and> live v' = live v @ [item]
            \<and> unat (GetSize v') = unat (GetSize v) + 1
            \<and> (m_size v = m_capacity v \<longrightarrow>
                  (\<exists>v1. Resize dflt v (m_size v + 1) = Inr v1
                        \<and> v' = v1\<lparr>m_items := (m_items v1)[unat (m_size v1) - 1 := item]\<rparr>)
                  \<and> unat (GetCapacity v')
                      = max (unat (GetSize v) + 1) (2 * unat (GetCapacity v)))
            \<and> (m_size v \<noteq> m_capacity v \<longrightarrow>
                  v' = v\<lparr>m_items := (m_items v)[unat (m_size v) := item],
                          m_size := m_size v + 1\<rparr>)"
  proof (cases "m_size v = m_capacity v")
    case True
    let ?c = "max (m_size v + 1) (m_capacity v * 2)"
    have sz: "unat (m_size v + 1) = unat (m_size v) + 1"
      using small True by (simp add: unat_succ_size_t)
    then have gt: "m_capacity v < m_size v + 1"
      using True by (simp add: word_less_nat_alt)
    have cap: "unat ?c = max (unat (m_size v) + 1) (2 * unat (m_capacity v))"
      using small by (simp only: unat_max_size_t sz unat_double_size_t)
    then have room: "unat (m_size v) < unat ?c" by simp
    then have cnt: "unat ?c - unat (m_size v) = Suc (unat ?c - Suc (unat (m_size v)))" by arith
    define v1 where "v1 = v\<lparr>m_items := live v @ replicate (unat ?c - unat (m_size v)) dflt,
                              m_size := m_size v + 1, m_capacity := ?c\<rparr>"
    define v' where "v' = v\<lparr>m_items := live v @ item # replicate (unat ?c - Suc (unat (m_size v))) dflt,
                              m_size := m_size v + 1, m_capacity := ?c\<rparr>"
    have r: "Resize dflt v (m_size v + 1) = Inr v1"
      unfolding v1_def by (rule Resize_grow [OF inv gt])
    have p: "PushBack dflt v (Outside item) = Inr v'"
      unfolding v'_def by (rule PushBack_full [OF inv small True])
    have "live v' = take (unat (m_size v')) (m_items v')"
      by (simp add: live_def)
    also have "\<dots> = take (Suc (unat (m_size v)))
                       (live v @ item # replicate (unat ?c - Suc (unat (m_size v))) dflt)"
      by (simp add: v'_def sz)
    also have "\<dots> = live v @ [item]"
      by (simp add: len)
    finally have l: "live v' = live v @ [item]" .
    have s: "unat (GetSize v') = unat (GetSize v) + 1"
      by (simp add: v'_def GetSize_def sz)
    have c: "unat (GetCapacity v') = max (unat (GetSize v) + 1) (2 * unat (GetCapacity v))"
      using cap by (simp add: v'_def GetSize_def GetCapacity_def)
    have e: "v' = v1\<lparr>m_items := (m_items v1)[unat (m_size v1) - 1 := item]\<rparr>"
      by (simp add: v'_def v1_def sz list_update_append len cnt)
    from True r p l s c e show ?thesis by blast
  next
    case False
    show ?thesis
      using False PushBack_spare(1) [OF inv False, of dflt item] PushBack_spare(2,3) [OF inv False]
      by (simp add: GetSize_def live_def take_Suc_conv_app_nth)
  qed
  have scenario: "GetCapacity (SimpleVector_default :: int SimpleVector) = 0
       \<and> PushBack 0 SimpleVector_default (Outside (1 :: int))
           = Inr \<lparr>m_items = [1], m_size = 1, m_capacity = 1\<rparr>
       \<and> PushBack 0 \<lparr>m_items = [1], m_size = 1, m_capacity = 1\<rparr> (Outside (2 :: int))
           = Inr \<lparr>m_items = [1, 2], m_size = 2, m_capacity = 2\<rparr>
       \<and> PushBack 0 \<lparr>m_items = [1, 2], m_size = 2, m_capacity = 2\<rparr> (Outside (3 :: int))
           = Inr \<lparr>m_items = [1, 2, 3, 0], m_size = 3, m_capacity = 4\<rparr>
       \<and> live \<lparr>m_items = [1, 2, 3, 0 :: int], m_size = 3, m_capacity = 4\<rparr> = [1, 2, 3]"
    by code_simp
  from general scenario show ?thesis by (rule conjI)
qed

section \<open>Erasing\<close>

lemma unat_pred_size_t:
  fixes n :: size_t
  assumes "0 < unat n"
  shows "unat (n - 1) = unat n - 1"
proof -
  from assms have "n \<noteq> 0" by auto
  then show ?thesis by (rule unat_minus_one)
qed

text \<open>
  \<open>Erase\<close> reads the live range and nothing else of the old buffer, so it asks only
  that the live range lies in the buffer; the capacity plays no part.
\<close>

lemma Erase_in_range:
  assumes slots: "unat (m_size v) \<le> length (m_items v)" and pos: "pos < end_it v"
  shows "Erase dflt v pos =
           Inr (pos, v\<lparr>m_items := take pos (live v) @ drop (Suc pos) (live v) @ [dflt],
                        m_size := m_size v - 1\<rparr>)"
proof -
  let ?n = "unat (m_size v)"
  let ?src = "m_items v"
  from pos have lt: "pos < ?n" by (simp add: end_it_def)
  have head: "std_move ?src 0 pos (replicate ?n dflt) 0
                = Inr (take pos ?src @ replicate (?n - pos) dflt)"
    using std_copy_in_bounds [of 0 pos ?src 0 "replicate ?n dflt"] lt slots
    by (simp add: std_move_def)
  have tail: "std_move ?src (Suc pos) ?n (take pos ?src @ replicate (?n - pos) dflt) pos
                = Inr (take pos ?src @ take (?n - Suc pos) (drop (Suc pos) ?src) @ [dflt])"
  proof -
    have cnt: "?n - pos - (?n - Suc pos) = Suc 0" using lt by arith
    have "drop (pos + (?n - Suc pos)) (take pos ?src @ replicate (?n - pos) dflt) = [dflt]"
      using lt slots by (simp add: cnt)
    then show ?thesis
      using std_copy_in_bounds [of "Suc pos" ?n ?src pos "take pos ?src @ replicate (?n - pos) dflt"]
        lt slots
      by (simp add: std_move_def)
  qed
  have l1: "take pos (live v) = take pos ?src"
    using lt by (simp add: live_def min_def)
  have l2: "drop (Suc pos) (live v) = take (?n - Suc pos) (drop (Suc pos) ?src)"
    by (simp add: live_def drop_take)
  have ref: "pos < length (take pos ?src @ take (?n - Suc pos) (drop (Suc pos) ?src) @ [dflt])"
    using lt slots by simp
  show ?thesis
    using pos ref
    by (simp add: Erase_def Let_def ArrayPtr_new_def begin_it_def head tail ArrayPtr_ref_def l1 l2)
qed

lemma Erase_live:
  assumes slots: "unat (m_size v) \<le> length (m_items v)" and hi: "pos < end_it v"
  shows "\<exists>v'. Erase dflt v pos = Inr (pos, v')
           \<and> live v' = take pos (live v) @ drop (Suc pos) (live v)
           \<and> unat (m_size v') = unat (m_size v) - 1
           \<and> m_capacity v' = m_capacity v
           \<and> unat (m_size v') \<le> length (m_items v')"
proof -
  let ?n = "unat (m_size v)"
  define v' where "v' = v\<lparr>m_items := take pos (live v) @ drop (Suc pos) (live v) @ [dflt],
                            m_size := m_size v - 1\<rparr>"
  from hi have lt: "pos < ?n" by (simp add: end_it_def)
  then have sz: "unat (m_size v') = ?n - 1"
    by (simp add: v'_def unat_pred_size_t)
  have len: "length (live v) = ?n"
    using slots by (simp add: live_def)
  have e: "Erase dflt v pos = Inr (pos, v')"
    unfolding v'_def by (rule Erase_in_range [OF slots hi])
  have "live v' = take (?n - 1) (m_items v')"
    by (simp add: live_def sz)
  also have "\<dots> = take (?n - 1) ((take pos (live v) @ drop (Suc pos) (live v)) @ [dflt])"
    by (simp add: v'_def)
  also have "\<dots> = take pos (live v) @ drop (Suc pos) (live v)"
    using lt by (simp add: len)
  finally have l: "live v' = take pos (live v) @ drop (Suc pos) (live v)" .
  have c: "m_capacity v' = m_capacity v" by (simp add: v'_def)
  have k: "unat (m_size v') \<le> length (m_items v')"
    using lt unfolding sz by (simp add: v'_def len)
  from e l sz c k show ?thesis by blast
qed

text \<open>
  The copy constructor asks the same of its argument, and both operations hand back a
  container whose live range lies in its buffer.
\<close>

lemma SimpleVector_copy_live:
  assumes slots: "unat (m_size other) \<le> length (m_items other)"
  shows "SimpleVector_copy dflt other =
           Inr \<lparr>m_items = live other, m_size = m_size other, m_capacity = m_capacity other\<rparr>"
  using std_copy_in_bounds [of 0 "unat (m_size other)" "m_items other" 0
          "replicate (unat (m_size other)) dflt"] slots
  by (simp add: SimpleVector_copy_def begin_it_def end_it_def GetSize_def GetCapacity_def
      ArrayPtr_new_def live_def)

text \<open>
  C3, as the claim states it, fails: the container built from the literal list
  \<open>{1, 2, 3}\<close> has size 3 and capacity 3; erasing at \<open>begin() + 1\<close> leaves size 2,
  and \<open>GetCapacity()\<close> still answers 3, which is not the new size.
\<close>

theorem Erase_capacity_counterexample:
  "SimpleVector_init 0 [1, 2, 3 :: int] = Inr \<lparr>m_items = [1, 2, 3], m_size = 3, m_capacity = 3\<rparr>
   \<and> begin_it \<lparr>m_items = [1, 2, 3 :: int], m_size = 3, m_capacity = 3\<rparr> \<le> 1
   \<and> 1 < end_it \<lparr>m_items = [1, 2, 3 :: int], m_size = 3, m_capacity = 3\<rparr>
   \<and> Erase 0 \<lparr>m_items = [1, 2, 3 :: int], m_size = 3, m_capacity = 3\<rparr> 1
       = Inr (1, \<lparr>m_items = [1, 3, 0], m_size = 2, m_capacity = 3\<rparr>)
   \<and> GetSize \<lparr>m_items = [1, 3, 0 :: int], m_size = 2, m_capacity = 3\<rparr> = 2
   \<and> GetCapacity \<lparr>m_items = [1, 3, 0 :: int], m_size = 2, m_capacity = 3\<rparr> = 3
   \<and> GetCapacity \<lparr>m_items = [1, 3, 0 :: int], m_size = 2, m_capacity = 3\<rparr>
       \<noteq> GetSize \<lparr>m_items = [1, 3, 0 :: int], m_size = 2, m_capacity = 3\<rparr>"
  by code_simp

text \<open>
  C3, amended.  For every non-empty container (its live range made of slots of its
  buffer, as it is in every container) and every position with
  \<open>begin() \<le> pos < end()\<close>, \<open>Erase\<close> returns normally; the live range afterwards is the
  old one without the element at \<open>pos\<close>, the elements before it in place and the
  elements after it one slot to the left, in their order; the size is one less; the
  iterator returned is \<open>pos\<close>, which is \<open>end()\<close> of the result exactly when the last
  element was erased and otherwise names the element that followed the erased one.
  (Nothing is stated about the capacity.)
\<close>

theorem Erase_removes_and_shifts:
  assumes slots: "unat (m_size v) \<le> length (m_items v)"
    and lo: "begin_it v \<le> pos" and hi: "pos < end_it v"
  shows "\<exists>v'. Erase dflt v pos = Inr (pos, v')
           \<and> live v' = take pos (live v) @ drop (Suc pos) (live v)
           \<and> unat (GetSize v') + 1 = unat (GetSize v)
           \<and> pos \<le> end_it v'
           \<and> (pos = end_it v') = (Suc pos = end_it v)
           \<and> (pos < end_it v' \<longrightarrow> live v' ! pos = live v ! Suc pos)"
proof -
  let ?n = "unat (m_size v)"
  from hi have lt: "pos < ?n" by (simp add: end_it_def)
  have len: "length (live v) = ?n"
    using slots by (simp add: live_def)
  from Erase_live [OF slots hi, of dflt]
  obtain v' where e: "Erase dflt v pos = Inr (pos, v')"
    and l: "live v' = take pos (live v) @ drop (Suc pos) (live v)"
    and sz: "unat (m_size v') = ?n - 1" by blast
  have s: "unat (GetSize v') + 1 = unat (GetSize v)"
    using lt by (simp add: GetSize_def sz)
  have p: "pos \<le> end_it v'" and q: "(pos = end_it v') = (Suc pos = end_it v)"
    using lt by (auto simp: end_it_def sz)
  have r: "live v' ! pos = live v ! Suc pos" if "pos < end_it v'"
  proof -
    from that have "Suc pos < ?n" by (simp add: end_it_def sz)
    then show ?thesis
      by (simp add: l nth_append len)
  qed
  from e l s p q r show ?thesis by blast
qed

text \<open>
  The witness is the result of an earlier \<open>Erase\<close>: capacity 4 over a buffer of 3
  slots.
\<close>

theorem Erase_removes_and_shifts_witness:
  "unat (m_size \<lparr>m_items = [1, 3, 0 :: int], m_size = 2, m_capacity = 4\<rparr>)
     \<le> length (m_items \<lparr>m_items = [1, 3, 0 :: int], m_size = 2, m_capacity = 4\<rparr>)
   \<and> begin_it \<lparr>m_items = [1, 3, 0 :: int], m_size = 2, m_capacity = 4\<rparr> \<le> 0
   \<and> 0 < end_it \<lparr>m_items = [1, 3, 0 :: int], m_size = 2, m_capacity = 4\<rparr>
   \<and> (\<exists>v'. Erase 0 \<lparr>m_items = [1, 3, 0 :: int], m_size = 2, m_capacity = 4\<rparr> 0 = Inr (0, v')
            \<and> live v' = [3] \<and> unat (GetSize v') = 1 \<and> 0 < end_it v' \<and> live v' ! 0 = 3)"
proof -
  let ?v = "\<lparr>m_items = [1, 3, 0 :: int], m_size = 2, m_capacity = 4\<rparr>"
  have s: "unat (m_size ?v) \<le> length (m_items ?v)"
    and lo: "begin_it ?v \<le> 0" and hi: "0 < end_it ?v"
    by (simp_all add: begin_it_def end_it_def)
  have l: "live ?v = [1, 3]"
    by (simp add: live_def)
  from Erase_removes_and_shifts [OF s lo hi, of 0]
  have "\<exists>v'. Erase 0 ?v 0 = Inr (0, v')
            \<and> live v' = [3] \<and> unat (GetSize v') = 1 \<and> 0 < end_it v' \<and> live v' ! 0 = 3"
    by (auto simp: l GetSize_def end_it_def)
  with s lo hi show ?thesis by blast
qed

section \<open>Resizing without growing\<close>

text \<open>
  The two branches of \<open>Resize\<close> that keep the buffer.  Shrinking only lowers the
  size.  Growing inside the capacity fills the slots \<open>[size, size + new_size)\<close> and
  leaves the buffer as soon as \<open>size + new_size\<close> exceeds the number of slots.
\<close>

lemma Fill_overrun:
  "first \<le> length buf \<Longrightarrow> length buf < lastp \<Longrightarrow> Fill dflt buf first lastp = Inl BufferOverrun"
proof (induction dflt buf first lastp rule: Fill.induct)
  case (1 dflt buf first lastp)
  then have ne: "first \<noteq> lastp" by simp
  show ?case
  proof (cases "first < length buf")
    case True
    then have "Fill dflt (buf[first := dflt]) (Suc first) lastp = Inl BufferOverrun"
      using "1.IH" [OF ne True] "1.prems" by simp
    then show ?thesis
      using ne True by (subst Fill.simps) simp
  next
    case False
    then show ?thesis
      using ne by (subst Fill.simps) simp
  qed
qed

lemma Resize_shrink:
  assumes "invar v" and "new_size \<le> m_size v"
  shows "Resize dflt v new_size = Inr (v\<lparr>m_size := new_size\<rparr>)"
proof -
  from assms have le: "new_size \<le> m_capacity v" by (auto simp: invar_def)
  then have br: "\<not> m_capacity v < new_size" by simp
  from assms(2) have br2: "\<not> m_size v < new_size" by simp
  show ?thesis
  proof (cases "new_size = m_size v")
    case True
    then show ?thesis using le br by (simp add: Resize_def)
  next
    case False
    with assms(2) have "new_size < m_size v" by simp
    then show ?thesis using le br br2 by (simp add: Resize_def)
  qed
qed

lemma Resize_within_capacity:
  assumes inv: "invar v" and gt: "m_size v < new_size" and le: "new_size \<le> m_capacity v"
  shows "Resize dflt v new_size =
           (if unat (m_size v) + unat new_size \<le> length (m_items v)
            then Inr (v\<lparr>m_items := live v @ replicate (unat new_size) dflt
                                     @ drop (unat (m_size v) + unat new_size) (m_items v),
                        m_size := new_size\<rparr>)
            else Inl BufferOverrun)"
proof -
  have slots: "unat (m_size v) \<le> length (m_items v)" by (rule invar_size_le_slots [OF inv])
  have br: "\<not> m_capacity v < new_size" using le by simp
  have "Resize dflt v new_size =
          (case Fill dflt (m_items v) (end_it v) (end_it v + unat new_size) of
             Inl e \<Rightarrow> Inl e
           | Inr filled \<Rightarrow> Inr (v\<lparr>m_items := filled, m_size := new_size\<rparr>))"
    using br le gt by (simp add: Resize_def)
  then show ?thesis
    using slots Fill_in_bounds [of "unat (m_size v)" "unat (m_size v) + unat new_size" "m_items v" dflt]
      Fill_overrun [of "unat (m_size v)" "m_items v" "unat (m_size v) + unat new_size" dflt]
    by (simp add: end_it_def live_def)
qed

section \<open>Inserting\<close>

text \<open>
  \<open>copy_backward\<close> with \<open>d_last = last + 1\<close> shifts the slots \<open>[first, last)\<close> one to
  the right; it needs the slot \<open>last\<close> to exist.
\<close>

lemma std_copy_backward_shift:
  "first \<le> lastp \<Longrightarrow> lastp < length buf \<Longrightarrow>
   std_copy_backward buf first lastp (Suc lastp) =
     Inr (take (Suc first) buf @ take (lastp - first) (drop first buf) @ drop (Suc lastp) buf)"
proof (induction "lastp - first" arbitrary: lastp buf)
  case 0
  then have "first = lastp" by simp
  then show ?case
    using "0.prems"
    by (subst std_copy_backward.simps) (simp add: take_Suc_conv_app_nth id_take_nth_drop [symmetric])
next
  case (Suc k)
  then obtain l where l: "lastp = Suc l" and fl: "first \<le> l" and k: "k = l - first"
    by (cases lastp) auto
  from Suc.prems l have len: "Suc l < length buf" by simp
  let ?buf' = "buf[Suc l := buf ! l]"
  have step: "std_copy_backward buf first (Suc l) (Suc (Suc l)) = std_copy_backward ?buf' first l (Suc l)"
    using fl len by (subst std_copy_backward.simps) simp
  have ih: "std_copy_backward ?buf' first l (Suc l) =
              Inr (take (Suc first) ?buf' @ take (l - first) (drop first ?buf') @ drop (Suc l) ?buf')"
    using Suc.hyps(1) [OF k fl, of ?buf'] len by simp
  have a: "take (Suc first) ?buf' = take (Suc first) buf"
    using fl by simp
  have b: "take (l - first) (drop first ?buf') = take (l - first) (drop first buf)"
    using fl by (simp add: drop_update_swap)
  have "drop (Suc l) ?buf' = (drop (Suc l) buf)[0 := buf ! l]"
    by (simp add: drop_update_swap)
  also have "drop (Suc l) buf = buf ! Suc l # drop (Suc (Suc l)) buf"
    using len by (rule Cons_nth_drop_Suc [symmetric])
  finally have c: "drop (Suc l) ?buf' = buf ! l # drop (Suc (Suc l)) buf"
    by simp
  have d: "take (Suc l - first) (drop first buf) = take (l - first) (drop first buf) @ [buf ! l]"
  proof -
    have "Suc l - first = Suc (l - first)" using fl by simp
    moreover have "l - first < length (drop first buf)" using fl len by simp
    moreover have "drop first buf ! (l - first) = buf ! l" using fl len by simp
    ultimately show ?thesis by (simp add: take_Suc_conv_app_nth)
  qed
  show ?case
    unfolding l step ih a b c d by simp
qed

lemma std_copy_backward_overrun:
  "first \<noteq> lastp \<Longrightarrow> length buf \<le> lastp \<Longrightarrow>
   std_copy_backward buf first lastp (Suc lastp) = Inl BufferOverrun"
  by (subst std_copy_backward.simps) simp

lemma shift_length:
  "first \<le> lastp \<Longrightarrow> lastp < length buf \<Longrightarrow>
   length (take (Suc first) buf @ take (lastp - first) (drop first buf) @ drop (Suc lastp) buf)
     = length buf"
  by simp

lemma shift_update:
  "first \<le> lastp \<Longrightarrow> lastp < length buf \<Longrightarrow>
   (take (Suc first) buf @ take (lastp - first) (drop first buf) @ drop (Suc lastp) buf)[first := x]
     = take first buf @ x # take (lastp - first) (drop first buf) @ drop (Suc lastp) buf"
  by (simp add: list_update_append take_Suc_conv_app_nth)

text \<open>
  With a spare slot \<open>Insert\<close> shifts \<open>[pos, size)\<close>.  On a full container it shifts
  \<open>[pos, size + 1)\<close> in the buffer that \<open>Resize\<close> has made, which has \<open>max (size + 1) (2 * size)\<close>
  slots: that is enough from size 2 on, and one slot short for the sizes 0 and 1.
\<close>

lemma Insert_spare:
  assumes inv: "invar v" and spare: "m_size v \<noteq> m_capacity v" and pos: "pos \<le> end_it v"
  shows "\<exists>v'. Insert dflt v pos val = Inr (pos, v')
           \<and> live v' = take pos (live v) @ val # drop pos (live v)
           \<and> unat (m_size v') = unat (m_size v) + 1
           \<and> m_capacity v' = m_capacity v
           \<and> invar v'"
proof -
  let ?n = "unat (m_size v)"
  let ?b = "m_items v"
  let ?shifted = "take (Suc pos) ?b @ take (?n - pos) (drop pos ?b) @ drop (Suc ?n) ?b"
  define v' where "v' = v\<lparr>m_items := ?shifted[pos := val], m_size := m_size v + 1\<rparr>"
  from pos have le: "pos \<le> ?n" by (simp add: end_it_def)
  have slot: "?n < length ?b" and sz: "unat (m_size v + 1) = ?n + 1"
    by (rule PushBack_spare(2,3) [OF inv spare])+
  have sh: "std_copy_backward ?b pos ?n (Suc ?n) = Inr ?shifted"
    using le slot by (rule std_copy_backward_shift)
  have lensh: "length ?shifted = length ?b"
    using le slot by simp
  have ref: "ArrayPtr_ref ?shifted pos = Inr pos"
    unfolding ArrayPtr_ref_def lensh using le slot by simp
  have i: "Insert dflt v pos val = Inr (pos, v')"
    using pos spare
    by (simp add: Insert_def Let_def begin_it_def end_it_def sh ref v'_def)
  have upd: "?shifted[pos := val] = take pos ?b @ val # take (?n - pos) (drop pos ?b) @ drop (Suc ?n) ?b"
    using le slot by (simp add: list_update_append take_Suc_conv_app_nth)
  have "live v' = take (Suc ?n) (?shifted[pos := val])"
    by (simp add: live_def v'_def sz)
  also have "\<dots> = take pos ?b @ val # take (?n - pos) (drop pos ?b)"
    unfolding upd using le slot by (simp add: Suc_diff_le)
  also have "\<dots> = take pos (live v) @ val # drop pos (live v)"
    using le by (simp add: live_def drop_take min_def)
  finally have l: "live v' = take pos (live v) @ val # drop pos (live v)" .
  have s: "unat (m_size v') = ?n + 1" by (simp add: v'_def sz)
  have c: "m_capacity v' = m_capacity v" by (simp add: v'_def)
  from inv spare have "m_size v < m_capacity v" by (simp add: invar_def order_less_le)
  then have "?n + 1 \<le> unat (m_capacity v)" by (simp add: word_less_nat_alt)
  then have iv: "invar v'"
    using inv unfolding invar_def word_le_nat_alt s c
    by (simp add: v'_def del: length_append length_take length_drop add: lensh)
  from i l s c iv show ?thesis by blast
qed

lemma Insert_full:
  assumes inv: "invar v" and small: "unat (m_capacity v) < 2 ^ 63"
    and full: "m_size v = m_capacity v" and pos: "pos \<le> end_it v"
  shows "2 \<le> unat (m_size v) \<Longrightarrow>
           \<exists>v'. Insert dflt v pos val = Inr (pos, v')
             \<and> live v' = take pos (live v) @ val # drop pos (live v)
             \<and> unat (m_size v') = unat (m_size v) + 1
             \<and> invar v'"
    and "unat (m_size v) < 2 \<Longrightarrow> Insert dflt v pos val = Inl BufferOverrun"
proof -
  let ?n = "unat (m_size v)"
  let ?c = "max (m_size v + 1) (m_capacity v * 2)"
  define b1 where "b1 = live v @ replicate (unat ?c - ?n) dflt"
  define v1 where "v1 = v\<lparr>m_items := b1, m_size := m_size v + 1, m_capacity := ?c\<rparr>"
  from pos have le: "pos \<le> ?n" by (simp add: end_it_def)
  have sz: "unat (m_size v + 1) = ?n + 1"
    using small full by (simp add: unat_succ_size_t)
  then have gt: "m_capacity v < m_size v + 1"
    using full by (simp add: word_less_nat_alt)
  have dbl: "unat (m_capacity v * 2) = 2 * ?n"
    using small full by (simp add: unat_double_size_t)
  have cap: "unat ?c = max (?n + 1) (2 * ?n)"
    by (simp only: unat_max_size_t sz dbl)
  have len: "length (live v) = ?n"
    using invar_size_le_slots [OF inv] by (simp add: live_def)
  have lenb: "length b1 = unat ?c"
    using cap by (simp add: b1_def len)
  have lenmax: "length b1 = max (?n + 1) (2 * ?n)"
    using lenb cap by (rule trans)
  have front: "take pos b1 = take pos (live v)"
    using le by (simp add: b1_def len)
  have rear: "take (?n - pos) (drop pos b1) = drop pos (live v)"
    using le by (simp add: b1_def len)
  have r: "Resize dflt v (m_size v + 1) = Inr v1"
    unfolding v1_def b1_def by (rule Resize_grow [OF inv gt])
  have body: "Insert dflt v pos val =
          (case std_copy_backward b1 pos (Suc ?n) (Suc (Suc ?n)) of
             Inl e \<Rightarrow> Inl e
           | Inr shifted \<Rightarrow>
               (case ArrayPtr_ref shifted pos of
                  Inl e \<Rightarrow> Inl e
                | Inr r \<Rightarrow> Inr (r, v1\<lparr>m_items := shifted[r := val]\<rparr>)))"
    using pos by (simp add: Insert_def Let_def begin_it_def if_P [OF full] r) (simp add: v1_def sz)
  {
    assume "?n < 2"
    then have "length b1 \<le> Suc ?n" unfolding lenmax by simp
    moreover have "pos \<noteq> Suc ?n" using le by simp
    ultimately have "std_copy_backward b1 pos (Suc ?n) (Suc (Suc ?n)) = Inl BufferOverrun"
      by (rule std_copy_backward_overrun [rotated])
    then show "Insert dflt v pos val = Inl BufferOverrun"
      by (simp add: body)
  }
  {
    assume big: "2 \<le> ?n"
    let ?shifted = "take (Suc pos) b1 @ take (Suc ?n - pos) (drop pos b1) @ drop (Suc (Suc ?n)) b1"
    define v' where "v' = v1\<lparr>m_items := ?shifted[pos := val]\<rparr>"
    from big have room: "Suc ?n < length b1" unfolding lenmax by simp
    from le have le': "pos \<le> Suc ?n" by simp
    have sh: "std_copy_backward b1 pos (Suc ?n) (Suc (Suc ?n)) = Inr ?shifted"
      using le' room by (rule std_copy_backward_shift)
    have lensh: "length ?shifted = length b1"
      using le' room by (rule shift_length)
    have ref: "ArrayPtr_ref ?shifted pos = Inr pos"
      unfolding ArrayPtr_ref_def lensh using le room by simp
    have i: "Insert dflt v pos val = Inr (pos, v')"
      unfolding body sh v'_def by (simp add: ref)
    have upd: "?shifted[pos := val]
                 = take pos b1 @ val # take (Suc ?n - pos) (drop pos b1) @ drop (Suc (Suc ?n)) b1"
      using le' room by (rule shift_update)
    have "live v' = take (Suc ?n) (?shifted[pos := val])"
      by (simp add: live_def v'_def v1_def sz)
    also have "\<dots> = take pos b1 @ val # take (?n - pos) (drop pos b1)"
      unfolding upd using le room by (simp add: Suc_diff_le)
    also have "\<dots> = take pos (live v) @ val # drop pos (live v)"
      by (simp only: front rear)
    finally have l: "live v' = take pos (live v) @ val # drop pos (live v)" .
    have s: "unat (m_size v') = ?n + 1" by (simp add: v'_def v1_def sz)
    have "m_size v' \<le> m_capacity v'" by (simp add: v'_def v1_def)
    moreover have "unat (m_capacity v') \<le> length (m_items v')"
      by (simp add: v'_def v1_def del: length_append length_take length_drop add: lensh lenb)
    ultimately have iv: "invar v'" by (simp add: invar_def)
    from i l s iv
    show "\<exists>v'. Insert dflt v pos val = Inr (pos, v')
             \<and> live v' = take pos (live v) @ val # drop pos (live v)
             \<and> unat (m_size v') = unat (m_size v) + 1
             \<and> invar v'" by blast
  }
qed

lemma Insert_then_Erase_roundtrip:
  assumes inv: "invar v" and small: "unat (m_capacity v) < 2 ^ 63" and pos: "pos \<le> end_it v"
    and ok: "m_size v \<noteq> m_capacity v \<or> 2 \<le> unat (m_size v)"
  shows "\<exists>v1 v2. Insert dflt v pos val = Inr (pos, v1) \<and> Erase dflt v1 pos = Inr (pos, v2)
           \<and> live v2 = live v \<and> unat (m_size v2) = unat (m_size v)"
proof -
  let ?n = "unat (m_size v)"
  from pos have le: "pos \<le> ?n" by (simp add: end_it_def)
  have len: "length (live v) = ?n"
    using invar_size_le_slots [OF inv] by (simp add: live_def)
  have "\<exists>v1. Insert dflt v pos val = Inr (pos, v1)
           \<and> live v1 = take pos (live v) @ val # drop pos (live v)
           \<and> unat (m_size v1) = ?n + 1 \<and> invar v1"
  proof (cases "m_size v = m_capacity v")
    case True
    with ok have "2 \<le> ?n" by simp
    then show ?thesis by (rule Insert_full(1) [OF inv small True pos])
  next
    case False
    from Insert_spare [OF inv False pos, of dflt val] show ?thesis by blast
  qed
  then obtain v1 where i: "Insert dflt v pos val = Inr (pos, v1)"
    and l1: "live v1 = take pos (live v) @ val # drop pos (live v)"
    and s1: "unat (m_size v1) = ?n + 1" and inv1: "invar v1" by blast
  from le s1 have hi: "pos < end_it v1" by (simp add: end_it_def)
  from Erase_live [OF invar_size_le_slots [OF inv1] hi, of dflt]
  obtain v2 where e: "Erase dflt v1 pos = Inr (pos, v2)"
    and l2: "live v2 = take pos (live v1) @ drop (Suc pos) (live v1)"
    and s2: "unat (m_size v2) = unat (m_size v1) - 1" by blast
  have "live v2 = take pos (live v) @ drop pos (live v)"
    unfolding l2 l1 using le by (simp add: len)
  then have "live v2 = live v" by simp
  with i e s1 s2 show ?thesis by simp
qed

section \<open>Comparing\<close>

text \<open>
  \<open>operator==\<close> compares the live range of the left operand with the slots of the
  right operand at the same offsets.  For operands of the same size this is the
  comparison of the two live ranges.
\<close>

lemma std_equal_in_bounds:
  "first1 \<le> last1 \<Longrightarrow> last1 \<le> length b1 \<Longrightarrow> first2 + (last1 - first1) \<le> length b2 \<Longrightarrow>
   std_equal b1 first1 last1 b2 first2 =
     Inr (take (last1 - first1) (drop first1 b1) = take (last1 - first1) (drop first2 b2))"
proof (induction b1 first1 last1 b2 first2 rule: std_equal.induct)
  case (1 b1 first1 last1 b2 first2)
  show ?case
  proof (cases "first1 = last1")
    case True
    then show ?thesis by (subst std_equal.simps) simp
  next
    case False
    with "1.prems" have lt: "first1 < last1" "first1 < length b1" "first2 < length b2" by auto
    then have cnt: "last1 - first1 = Suc (last1 - Suc first1)" by arith
    have h1: "take (last1 - first1) (drop first1 b1)
                = b1 ! first1 # take (last1 - Suc first1) (drop (Suc first1) b1)"
      using lt by (simp add: cnt Cons_nth_drop_Suc [symmetric])
    have h2: "take (last1 - first1) (drop first2 b2)
                = b2 ! first2 # take (last1 - Suc first1) (drop (Suc first2) b2)"
      using lt by (simp add: cnt Cons_nth_drop_Suc [symmetric])
    show ?thesis
    proof (cases "b1 ! first1 = b2 ! first2")
      case True
      have "std_equal b1 first1 last1 b2 first2 = std_equal b1 (Suc first1) last1 b2 (Suc first2)"
        using False lt True by (subst std_equal.simps) simp
      also have "\<dots> = Inr (take (last1 - Suc first1) (drop (Suc first1) b1)
                            = take (last1 - Suc first1) (drop (Suc first2) b2))"
        using "1.IH" [OF False _ True] lt "1.prems" by simp
      finally show ?thesis unfolding h1 h2 using True by simp
    next
      case neq: False
      have "std_equal b1 first1 last1 b2 first2 = Inr False"
        using False lt neq by (subst std_equal.simps) simp
      then show ?thesis unfolding h1 h2 using neq by simp
    qed
  qed
qed

lemma operator_eq_compares_prefix:
  assumes "unat (m_size lhs) \<le> length (m_items lhs)" and "unat (m_size lhs) \<le> length (m_items rhs)"
  shows "operator_eq lhs rhs = Inr (live lhs = take (unat (m_size lhs)) (m_items rhs))"
  using std_equal_in_bounds [of 0 "unat (m_size lhs)" "m_items lhs" 0 "m_items rhs"] assms
  by (simp add: operator_eq_def begin_it_def end_it_def live_def)

lemma operator_eq_same_size:
  assumes "invar lhs" and "invar rhs" and "m_size lhs = m_size rhs"
  shows "operator_eq lhs rhs = Inr (live lhs = live rhs)"
  using operator_eq_compares_prefix [of lhs rhs] assms invar_size_le_slots [of lhs]
    invar_size_le_slots [of rhs]
  by (simp add: live_def)

section \<open>Where the header departs from its contract\<close>

text \<open>
  Each of the following theorems runs the model on containers that the public
  operations produce (\<open>{1, 2}\<close> and \<open>{1, 2, 3}\<close> from literal lists; the result
  of pushing 1, 2, 3 onto the empty container; that result after \<open>PopBack\<close>).
\<close>

text \<open>
  C1.  \<open>operator==\<close> runs over the live range of its left operand only and never
  compares the sizes.  The containers \<open>a\<close> and \<open>b\<close> built from \<open>{1, 2}\<close> compare equal;
  after \<open>b.PushBack(3)\<close> the sizes are 2 and 3 and the live ranges differ, yet
  \<open>a == b\<close> is still true.  With the operands exchanged the comparison reads slot 2
  of \<open>a\<close>, which the two-slot buffer of \<open>a\<close> does not have.
\<close>

theorem operator_eq_ignores_size:
  "SimpleVector_init 0 [1, 2 :: int] = Inr \<lparr>m_items = [1, 2], m_size = 2, m_capacity = 2\<rparr>
   \<and> operator_eq \<lparr>m_items = [1, 2 :: int], m_size = 2, m_capacity = 2\<rparr>
                   \<lparr>m_items = [1, 2], m_size = 2, m_capacity = 2\<rparr> = Inr True
   \<and> PushBack 0 \<lparr>m_items = [1, 2 :: int], m_size = 2, m_capacity = 2\<rparr> (Outside 3)
       = Inr \<lparr>m_items = [1, 2, 3, 0], m_size = 3, m_capacity = 4\<rparr>
   \<and> operator_eq \<lparr>m_items = [1, 2 :: int], m_size = 2, m_capacity = 2\<rparr>
                   \<lparr>m_items = [1, 2, 3, 0], m_size = 3, m_capacity = 4\<rparr> = Inr True
   \<and> GetSize \<lparr>m_items = [1, 2 :: int], m_size = 2, m_capacity = 2\<rparr>
       \<noteq> GetSize \<lparr>m_items = [1, 2, 3, 0 :: int], m_size = 3, m_capacity = 4\<rparr>
   \<and> live \<lparr>m_items = [1, 2 :: int], m_size = 2, m_capacity = 2\<rparr>
       \<noteq> live \<lparr>m_items = [1, 2, 3, 0 :: int], m_size = 3, m_capacity = 4\<rparr>
   \<and> operator_eq \<lparr>m_items = [1, 2, 3, 0 :: int], m_size = 3, m_capacity = 4\<rparr>
                   \<lparr>m_items = [1, 2], m_size = 2, m_capacity = 2\<rparr> = Inl BufferOverrun"
  by code_simp

text \<open>
  C2.  The copy constructor and \<open>Erase\<close> do not preserve the state invariant.  The
  container with elements 1, 2, size 2 and capacity 4 satisfies it; its copy has
  capacity 4 and a buffer of 2 slots, and a \<open>PushBack\<close> on the copy writes
  slot 2, outside the buffer.  The container with elements 1, 2, 3, size 3 and capacity 4
  satisfies it; after \<open>Erase\<close> at \<open>begin() + 1\<close> the capacity is 4 and the buffer has 3
  slots.
\<close>

theorem copy_and_Erase_break_invariant:
  "PopBack \<lparr>m_items = [1, 2, 3, 0 :: int], m_size = 3, m_capacity = 4\<rparr>
       = Inr \<lparr>m_items = [1, 2, 3, 0], m_size = 2, m_capacity = 4\<rparr>
   \<and> invar \<lparr>m_items = [1, 2, 3, 0 :: int], m_size = 2, m_capacity = 4\<rparr>
   \<and> SimpleVector_copy 0 \<lparr>m_items = [1, 2, 3, 0 :: int], m_size = 2, m_capacity = 4\<rparr>
       = Inr \<lparr>m_items = [1, 2], m_size = 2, m_capacity = 4\<rparr>
   \<and> \<not> invar \<lparr>m_items = [1, 2 :: int], m_size = 2, m_capacity = 4\<rparr>
   \<and> PushBack 0 \<lparr>m_items = [1, 2 :: int], m_size = 2, m_capacity = 4\<rparr> (Outside 5)
       = Inl BufferOverrun
   \<and> invar \<lparr>m_items = [1, 2, 3, 0 :: int], m_size = 3, m_capacity = 4\<rparr>
   \<and> Erase 0 \<lparr>m_items = [1, 2, 3, 0 :: int], m_size = 3, m_capacity = 4\<rparr> 1
       = Inr (1, \<lparr>m_items = [1, 3, 0], m_size = 2, m_capacity = 4\<rparr>)
   \<and> \<not> invar \<lparr>m_items = [1, 3, 0 :: int], m_size = 2, m_capacity = 4\<rparr>"
  by code_simp

text \<open>
  C4.  In the case \<open>size < newSize \<le> capacity\<close> the source fills from \<open>end()\<close> to
  \<open>end() + new_size\<close>, that is the slots \<open>[size, size + newSize)\<close> and not
  \<open>[size, newSize)\<close>.  With size 2 and capacity 4, \<open>Resize(3)\<close> writes the slots
  2, 3 and 4, and slot 4 is outside the buffer.  With size 1 and capacity 4,
  \<open>Resize(2)\<close> stays inside the buffer and overwrites slot 2 as well as slot 1.
\<close>

theorem Resize_within_capacity_fills_too_far:
  "invar \<lparr>m_items = [1, 2, 3, 0 :: int], m_size = 2, m_capacity = 4\<rparr>
   \<and> m_size \<lparr>m_items = [1, 2, 3, 0 :: int], m_size = 2, m_capacity = 4\<rparr> < 3
   \<and> 3 \<le> m_capacity \<lparr>m_items = [1, 2, 3, 0 :: int], m_size = 2, m_capacity = 4\<rparr>
   \<and> Resize 0 \<lparr>m_items = [1, 2, 3, 0 :: int], m_size = 2, m_capacity = 4\<rparr> 3 = Inl BufferOverrun
   \<and> Resize 0 \<lparr>m_items = [1, 7, 8, 9 :: int], m_size = 1, m_capacity = 4\<rparr> 2
       = Inr \<lparr>m_items = [1, 0, 0, 9], m_size = 2, m_capacity = 4\<rparr>"
  by code_simp

text \<open>
  C5.  Three operations leave the buffer although their preconditions hold and the
  container satisfies the state invariant: \<open>Insert\<close> at \<open>begin()\<close> into the empty
  container and at \<open>end()\<close> into a full container of one element; \<open>Resize(3)\<close> on a
  container of size 2 and capacity 4; \<open>operator==\<close> with a left operand of three
  elements and a right operand of two.
\<close>

theorem preconditions_do_not_keep_accesses_in_bounds:
  "invar (SimpleVector_default :: int SimpleVector)
   \<and> begin_it (SimpleVector_default :: int SimpleVector) \<le> 0
   \<and> 0 \<le> end_it (SimpleVector_default :: int SimpleVector)
   \<and> Insert 0 (SimpleVector_default :: int SimpleVector) 0 7 = Inl BufferOverrun
   \<and> invar \<lparr>m_items = [1 :: int], m_size = 1, m_capacity = 1\<rparr>
   \<and> 1 \<le> end_it \<lparr>m_items = [1 :: int], m_size = 1, m_capacity = 1\<rparr>
   \<and> Insert 0 \<lparr>m_items = [1 :: int], m_size = 1, m_capacity = 1\<rparr> 1 7 = Inl BufferOverrun
   \<and> invar \<lparr>m_items = [1, 2, 3, 0 :: int], m_size = 2, m_capacity = 4\<rparr>
   \<and> Resize 0 \<lparr>m_items = [1, 2, 3, 0 :: int], m_size = 2, m_capacity = 4\<rparr> 3 = Inl BufferOverrun
   \<and> invar \<lparr>m_items = [1, 2, 3 :: int], m_size = 3, m_capacity = 3\<rparr>
   \<and> invar \<lparr>m_items = [1, 2 :: int], m_size = 2, m_capacity = 2\<rparr>
   \<and> operator_eq \<lparr>m_items = [1, 2, 3 :: int], m_size = 3, m_capacity = 3\<rparr>
                   \<lparr>m_items = [1, 2], m_size = 2, m_capacity = 2\<rparr> = Inl BufferOverrun"
  by code_simp

text \<open>
  C8.  \<open>Insert\<close> at \<open>begin()\<close> into the empty container does not return: after
  \<open>Resize(1)\<close> the buffer has one slot and \<open>size_\<close> is already 1, so
  \<open>copy_backward\<close> moves slot 0 to slot 1, outside the buffer; the same happens for a
  full container of one element.  There is no container left to erase from.  On
  a container with a spare slot the round trip does give back the content.
\<close>

theorem Insert_then_Erase_fails_on_empty:
  "begin_it (SimpleVector_default :: int SimpleVector) \<le> 0
   \<and> 0 \<le> end_it (SimpleVector_default :: int SimpleVector)
   \<and> Insert 0 (SimpleVector_default :: int SimpleVector) 0 7 = Inl BufferOverrun
   \<and> Insert 0 \<lparr>m_items = [1 :: int], m_size = 1, m_capacity = 1\<rparr> 0 7 = Inl BufferOverrun
   \<and> Insert 0 \<lparr>m_items = [1, 2, 3, 0 :: int], m_size = 3, m_capacity = 4\<rparr> 1 7
       = Inr (1, \<lparr>m_items = [1, 7, 2, 3], m_size = 4, m_capacity = 4\<rparr>)
   \<and> Erase 0 \<lparr>m_items = [1, 7, 2, 3 :: int], m_size = 4, m_capacity = 4\<rparr> 1
       = Inr (1, \<lparr>m_items = [1, 2, 3, 0], m_size = 3, m_capacity = 4\<rparr>)"
  by code_simp

text \<open>
  C6.  \<open>PushBack\<close> does not append for every container and every value.  On the full
  container built from \<open>{1, 2}\<close>, \<open>v.PushBack(v[0])\<close> reads its argument after
  \<open>Resize\<close> has released the buffer the argument lives in.  On the copy of a container
  with size 2 and capacity 4, which has capacity 4 over a buffer of 2 slots,
  \<open>PushBack(5)\<close> takes the branch without \<open>Resize\<close> and writes slot 2, outside the
  buffer.
\<close>

theorem PushBack_reads_released_buffer_and_overruns_copy:
  "SimpleVector_init 0 [1, 2 :: int] = Inr \<lparr>m_items = [1, 2], m_size = 2, m_capacity = 2\<rparr>
   \<and> operator_index \<lparr>m_items = [1, 2 :: int], m_size = 2, m_capacity = 2\<rparr> 0
       = Inr (0, \<lparr>m_items = [1, 2], m_size = 2, m_capacity = 2\<rparr>)
   \<and> PushBack 0 \<lparr>m_items = [1, 2 :: int], m_size = 2, m_capacity = 2\<rparr> (Element 0)
       = Inl UseAfterFree
   \<and> SimpleVector_copy 0 \<lparr>m_items = [1, 2, 3, 0 :: int], m_size = 2, m_capacity = 4\<rparr>
       = Inr \<lparr>m_items = [1, 2], m_size = 2, m_capacity = 4\<rparr>
   \<and> PushBack 0 \<lparr>m_items = [1, 2 :: int], m_size = 2, m_capacity = 4\<rparr> (Outside 5)
       = Inl BufferOverrun"
  by code_simp

text \<open>
  C9.  Move-constructing \<open>b\<close> from \<open>a\<close> makes \<open>b\<close> the container that \<open>a\<close> was, and
  leaves \<open>a\<close> with size 0, capacity 0, an empty live range and the state invariant.
  Not every operation may be called on the moved-from \<open>a\<close>: \<open>Insert\<close> at \<open>begin()\<close>,
  with its precondition met, writes slot 1 of the one-slot buffer that \<open>Resize\<close> has
  made, and this for every \<open>a\<close> and every value.
\<close>

theorem Insert_into_moved_from_overruns:
  "fst (SimpleVector_move dflt a) = a
   \<and> GetSize (snd (SimpleVector_move dflt a)) = 0
   \<and> GetCapacity (snd (SimpleVector_move dflt a)) = 0
   \<and> IsEmpty (snd (SimpleVector_move dflt a))
   \<and> live (snd (SimpleVector_move dflt a)) = []
   \<and> invar (snd (SimpleVector_move dflt a))
   \<and> begin_it (snd (SimpleVector_move dflt a)) \<le> end_it (snd (SimpleVector_move dflt a))
   \<and> Insert dflt (snd (SimpleVector_move dflt a)) (begin_it (snd (SimpleVector_move dflt a))) val
       = Inl BufferOverrun"
proof -
  let ?a' = "snd (SimpleVector_move dflt a)"
  have a': "?a' = \<lparr>m_items = replicate (unat (m_size a)) dflt, m_size = 0, m_capacity = 0\<rparr>"
    by (simp add: SimpleVector_move_def swap_def GetSize_def ArrayPtr_new_def)
  have b: "fst (SimpleVector_move dflt a) = a"
    by (simp add: SimpleVector_move_def swap_def)
  have inv: "invar ?a'"
    by (simp add: a' invar_def)
  have small: "unat (m_capacity ?a') < 2 ^ 63" and full: "m_size ?a' = m_capacity ?a'"
    and pos: "begin_it ?a' \<le> end_it ?a'" and few: "unat (m_size ?a') < 2"
    by (simp_all add: a' begin_it_def)
  have ins: "Insert dflt ?a' (begin_it ?a') val = Inl BufferOverrun"
    using few by (rule Insert_full(2) [OF inv small full pos])
  have "GetSize ?a' = 0" and "GetCapacity ?a' = 0" and "IsEmpty ?a'" and "live ?a' = []"
    by (simp_all add: a' GetSize_def GetCapacity_def IsEmpty_def live_def)
  with b inv pos ins show ?thesis by simp
qed

end
